theory Spec2Isabelle
  imports
    Complex_Main
    "HOL-Library.Word"
    "HOL-Library.AList"
    "HOL-Library.Multiset"
    "HOL-Library.Product_Lexorder"
    "HOL-Library.Sublist"
begin

section \<open>Ocypus Iota L36 LCD driver: constants and data\<close>

text \<open>
  The development follows \<^verbatim>\<open>ocypus-L36-control.py\<close>. Python integers are \<open>int\<close>,
  a \<^verbatim>\<open>bytes\<close>/\<^verbatim>\<open>bytearray\<close> value is a list of 8-bit words.
\<close>

type_synonym byte = "8 word"
type_synonym bytes = "byte list"

definition REPORT_ID :: byte where
  "REPORT_ID = 0x07"

definition REPORT_LENGTH :: nat where
  "REPORT_LENGTH = 64"

section \<open>The report codec\<close>

text \<open>
  \<^verbatim>\<open>value_int = max(0, min(999, int(value_int)))\<close>, the first statement of
  \<^verbatim>\<open>_build_display_report\<close>; \<^verbatim>\<open>int()\<close> of a Python integer is the identity.
\<close>

definition clamp_value :: "int \<Rightarrow> int" where
  "clamp_value value_int = max 0 (min 999 value_int)"

text \<open>
  \<^verbatim>\<open>bytearray([REPORT_ID] + [0] * (REPORT_LENGTH - 1))\<close> followed by the five item
  assignments. Python's \<^verbatim>\<open>//\<close> and \<^verbatim>\<open>%\<close> round towards minus infinity, as \<open>div\<close>
  and \<open>mod\<close> on \<open>int\<close> do. Storing an integer outside \<open>0..255\<close> in a bytearray raises
  \<^verbatim>\<open>ValueError\<close>; lemma \<open>digits_in_byte_range\<close> shows that the three stored digits
  are always inside that range, so the stores are modelled by \<open>word_of_int\<close>.
  The source's variable \<^verbatim>\<open>o\<close> is \<open>ones\<close> here (\<open>o\<close> is function composition).
\<close>

definition build_display_report :: "int \<Rightarrow> bytes" where
  "build_display_report value_int =
     (let value_int = clamp_value value_int;
          h = value_int div 100;
          t = (value_int mod 100) div 10;
          ones = value_int mod 10;
          report = REPORT_ID # replicate (REPORT_LENGTH - 1) 0;
          report = report[1 := 0xFF];
          report = report[2 := 0xFF];
          report = report[3 := word_of_int h];
          report = report[4 := word_of_int t];
          report = report[5 := word_of_int ones]
      in report)"

section \<open>Device selection\<close>

text \<open>
  One dictionary of \<^verbatim>\<open>hid.enumerate\<close>. The source reads the keys \<^verbatim>\<open>interface_number\<close>,
  \<^verbatim>\<open>path\<close>, \<^verbatim>\<open>usage_page\<close> and \<^verbatim>\<open>usage\<close> with \<^verbatim>\<open>d.get(...)\<close>, which yields
  \<^verbatim>\<open>None\<close> for an absent key and for a key bound to \<^verbatim>\<open>None\<close> alike: each is an
  optional field. The fields carry the prefix \<open>info_\<close> because the controller has
  attributes of the same names.
\<close>

record device_info =
  info_interface_number :: "int option"
  info_path :: "bytes option"
  info_usage_page :: "int option"
  info_usage :: "int option"

text \<open>
  \<^verbatim>\<open>_unique_devices\<close>. The dictionary \<^verbatim>\<open>uniq\<close> is an association list in insertion
  order: \<^verbatim>\<open>uniq[key] = d\<close> on a key already present replaces the value and leaves the
  key where it was first inserted, on a new key it appends; this is \<open>AList.update\<close>.
  \<^verbatim>\<open>list(uniq.values())\<close> is the list of second components.
\<close>

type_synonym dev_key = "int option \<times> bytes option"

fun unique_loop ::
  "device_info list \<Rightarrow> (dev_key \<times> device_info) list \<Rightarrow> (dev_key \<times> device_info) list" where
  "unique_loop [] uniq = uniq"
| "unique_loop (d # devices) uniq =
     (let key = (info_interface_number d, info_path d) in
      if fst key = None \<or> snd key = None then unique_loop devices uniq
      else unique_loop devices (AList.update key d uniq))"

definition unique_devices :: "device_info list \<Rightarrow> device_info list" where
  "unique_devices devices = map snd (unique_loop devices [])"

text \<open>
  \<^verbatim>\<open>x or 0\<close> for an optional integer: \<^verbatim>\<open>None\<close> and \<^verbatim>\<open>0\<close> are falsy and give the
  right operand \<^verbatim>\<open>0\<close>, every other integer gives itself.
\<close>

definition or_0 :: "int option \<Rightarrow> int" where
  "or_0 x = (case x of None \<Rightarrow> 0 | Some n \<Rightarrow> if n \<noteq> 0 then n else 0)"

definition score :: "device_info \<Rightarrow> int \<times> int" where
  "score d =
     (let up = or_0 (info_usage_page d);
          iface = or_0 (info_interface_number d);
          vendor = (if up \<ge> 0xFF00 then 1 else 0)
      in (vendor, iface))"

text \<open>
  \<^verbatim>\<open>sorted(devices, key=score, reverse=True)\<close>. Python compares the key tuples
  lexicographically (the order of \<open>Product_Lexorder\<close>); the sort is stable, and with
  \<^verbatim>\<open>reverse=True\<close> elements with equal keys still keep their original order: the list
  is reversed, sorted stably in ascending order, and reversed again.
\<close>

definition sorted_candidates :: "device_info list \<Rightarrow> device_info list" where
  "sorted_candidates devices = rev (sort_key score (rev devices))"

section \<open>The HID library and the controller\<close>

text \<open>
  Exceptions that reach the code: whatever the HID binding raises (opaque, carried by
  its message), the \<^verbatim>\<open>RuntimeError\<close> the source raises for a non-positive byte count,
  and the two errors of \<^verbatim>\<open>round\<close> on a float that is not finite.
\<close>

datatype exn =
    HidException string
  | RuntimeError_write_returned int
  | ValueError_round_nan
  | OverflowError_round_inf

text \<open>
  The HID library is a parameter: an arbitrary world \<open>'w\<close> with the four calls the
  source makes. \<^verbatim>\<open>open_path\<close> and \<^verbatim>\<open>close\<close> return \<open>None\<close> or the exception they
  raise; \<^verbatim>\<open>write\<close> returns the byte count or raises. A \<^verbatim>\<open>hid.device\<close> object is
  identified by the path it was created for; constructing the object itself is taken
  to succeed.
\<close>

record 'w hid_api =
  hid_enumerate :: "'w \<Rightarrow> device_info list"
  hid_open_path :: "bytes \<Rightarrow> 'w \<Rightarrow> exn option \<times> 'w"
  hid_write :: "bytes \<Rightarrow> bytes \<Rightarrow> 'w \<Rightarrow> (exn + int) \<times> 'w"
  hid_close :: "bytes \<Rightarrow> 'w \<Rightarrow> exn option \<times> 'w"

datatype hid_device = HidDevice bytes

text \<open>
  A call made on the HID library, with what it gave back: the path of the device
  object, for a write the report, and the outcome.
\<close>

datatype event =
    OpenPath bytes "exn option"
  | Write bytes bytes "exn + int"
  | Close bytes "exn option"

text \<open>Python floats: the finite ones as exact rationals, and the three special values.
  Arithmetic on finite values is exact here; binary64 rounding and overflow are not
  modelled.\<close>

datatype pyfloat = Finite rat | PosInf | NegInf | NaN

datatype msg =
    Msg_no_cooler_found
  | Msg_connected int
  | Msg_no_working_interface
  | Msg_last_error exn
  | Msg_error_closing exn
  | Msg_device_not_connected
  | Msg_error_sending exn
  | Msg_error_blanking exn
  | Msg_sensor_temp string pyfloat bool
  | Msg_failed_to_send
  | Msg_sensor_not_found string
  | Msg_error_in_loop exn

text \<open>
  The state outside the controller: the HID world, the log of the calls made on it so
  far (kept so that properties can speak about what was opened, written and closed),
  and what was printed.
\<close>

record 'w sys =
  world :: 'w
  calls :: "event list"
  stdout :: "msg list"

definition print :: "msg \<Rightarrow> 'w sys \<Rightarrow> 'w sys" where
  "print m s = s\<lparr>stdout := stdout s @ [m]\<rparr>"

definition call_open_path :: "'w hid_api \<Rightarrow> bytes \<Rightarrow> 'w sys \<Rightarrow> exn option \<times> 'w sys" where
  "call_open_path api p s =
     (case hid_open_path api p (world s) of
        (r, w) \<Rightarrow> (r, s\<lparr>world := w, calls := calls s @ [OpenPath p r]\<rparr>))"

definition call_write :: "'w hid_api \<Rightarrow> bytes \<Rightarrow> bytes \<Rightarrow> 'w sys \<Rightarrow> (exn + int) \<times> 'w sys" where
  "call_write api p report s =
     (case hid_write api p report (world s) of
        (r, w) \<Rightarrow> (r, s\<lparr>world := w, calls := calls s @ [Write p report r]\<rparr>))"

definition call_close :: "'w hid_api \<Rightarrow> bytes \<Rightarrow> 'w sys \<Rightarrow> exn option \<times> 'w sys" where
  "call_close api p s =
     (case hid_close api p (world s) of
        (r, w) \<Rightarrow> (r, s\<lparr>world := w, calls := calls s @ [Close p r]\<rparr>))"

text \<open>
  The attributes of \<^verbatim>\<open>OcypusController\<close>; \<^verbatim>\<open>__init__\<close> sets all three to \<^verbatim>\<open>None\<close>.
  A \<^verbatim>\<open>hid.device\<close> object is truthy, so the tests \<^verbatim>\<open>if self.device\<close> and
  \<^verbatim>\<open>if not self.device\<close> of the methods ask whether the attribute is \<^verbatim>\<open>None\<close>.
\<close>

record controller =
  device :: "hid_device option"
  interface_number :: "int option"
  path :: "bytes option"

definition init :: controller where
  "init = \<lparr>device = None, interface_number = None, path = None\<rparr>"

text \<open>
  The body of the \<^verbatim>\<open>try\<close> block of \<^verbatim>\<open>open\<close> for one candidate, up to the point where
  it either has raised (\<open>Inl\<close>) or is about to bind the attributes (\<open>Inr\<close>).
\<close>

definition try_candidate :: "'w hid_api \<Rightarrow> bytes \<Rightarrow> 'w sys \<Rightarrow> (exn + unit) \<times> 'w sys" where
  "try_candidate api p s =
     (case call_open_path api p s of
        (Some e, s1) \<Rightarrow> (Inl e, s1)
      | (None, s1) \<Rightarrow>
          (let probe = build_display_report 0 in
           case call_write api p probe s1 of
             (Inl e, s2) \<Rightarrow> (Inl e, s2)
           | (Inr written, s2) \<Rightarrow>
               if written \<le> 0 then (Inl (RuntimeError_write_returned written), s2)
               else (Inr (), s2)))"

text \<open>The inner \<^verbatim>\<open>try: if device: device.close() except Exception: pass\<close>.\<close>

definition close_quietly :: "'w hid_api \<Rightarrow> bytes \<Rightarrow> 'w sys \<Rightarrow> 'w sys" where
  "close_quietly api p s = snd (call_close api p s)"

text \<open>
  The \<^verbatim>\<open>for device_info in candidates\<close> loop of \<^verbatim>\<open>open\<close> together with the code after
  it. The result is the returned boolean, the controller and the outside state.
\<close>

fun open_loop ::
  "'w hid_api \<Rightarrow> device_info list \<Rightarrow> exn option \<Rightarrow> controller \<Rightarrow> 'w sys \<Rightarrow>
   bool \<times> controller \<times> 'w sys" where
  "open_loop api [] last_err self s =
     (let s = print Msg_no_working_interface s;
          s = (case last_err of Some e \<Rightarrow> print (Msg_last_error e) s | None \<Rightarrow> s)
      in (False, self, s))"
| "open_loop api (device_info # candidates) last_err self s =
     (case (info_interface_number device_info, info_path device_info) of
        (Some i, Some p) \<Rightarrow>
          (case try_candidate api p s of
             (Inr _, s') \<Rightarrow>
               (True,
                self\<lparr>device := Some (HidDevice p), interface_number := Some i, path := Some p\<rparr>,
                print (Msg_connected i) s')
           | (Inl e, s') \<Rightarrow>
               open_loop api candidates (Some e) self (close_quietly api p s'))
      | _ \<Rightarrow> open_loop api candidates last_err self s)"

definition open_controller ::
  "'w hid_api \<Rightarrow> controller \<Rightarrow> 'w sys \<Rightarrow> bool \<times> controller \<times> 'w sys" where
  "open_controller api self s =
     (let devices = hid_enumerate api (world s) in
      if devices = [] then (False, self, print Msg_no_cooler_found s)
      else open_loop api (sorted_candidates (unique_devices devices)) None self s)"

definition close_controller :: "'w hid_api \<Rightarrow> controller \<Rightarrow> 'w sys \<Rightarrow> controller \<times> 'w sys" where
  "close_controller api self s =
     (case device self of
        None \<Rightarrow> (self, s)
      | Some (HidDevice h) \<Rightarrow>
          (case call_close api h s of
             (r, s') \<Rightarrow>
               (self\<lparr>device := None, interface_number := None, path := None\<rparr>,
                case r of Some e \<Rightarrow> print (Msg_error_closing e) s' | None \<Rightarrow> s')))"

section \<open>Sending a temperature\<close>

text \<open>\<^verbatim>\<open>str.lower\<close> on the ASCII letters; a character is a byte here.\<close>

definition char_lower :: "char \<Rightarrow> char" where
  "char_lower c =
     (let n = (of_char c :: nat) in if 65 \<le> n \<and> n \<le> 90 then char_of (n + 32) else c)"

definition lower :: "string \<Rightarrow> string" where
  "lower s = map char_lower s"

text \<open>\<^verbatim>\<open>temp_celsius * 9 / 5 + 32\<close>: an infinity stays the same infinity, NaN stays NaN.\<close>

fun to_fahrenheit :: "pyfloat \<Rightarrow> pyfloat" where
  "to_fahrenheit (Finite q) = Finite (q * 9 / 5 + 32)"
| "to_fahrenheit PosInf = PosInf"
| "to_fahrenheit NegInf = NegInf"
| "to_fahrenheit NaN = NaN"

text \<open>
  \<^verbatim>\<open>round(x)\<close> of Python 3 on a float: the nearest integer, a tie going to the even
  neighbour; \<^verbatim>\<open>ValueError\<close> on NaN and \<^verbatim>\<open>OverflowError\<close> on an infinity.
\<close>

definition round_half_even :: "rat \<Rightarrow> int" where
  "round_half_even q =
     (let f = \<lfloor>q\<rfloor>; d = q - of_int f in
      if d < 1 / 2 then f else if 1 / 2 < d then f + 1 else if even f then f else f + 1)"

fun py_round :: "pyfloat \<Rightarrow> exn + int" where
  "py_round (Finite q) = Inr (round_half_even q)"
| "py_round PosInf = Inl OverflowError_round_inf"
| "py_round NegInf = Inl OverflowError_round_inf"
| "py_round NaN = Inl ValueError_round_nan"

text \<open>
  \<^verbatim>\<open>send_temperature\<close>. The first component of the result is \<open>Inl e\<close> when the call
  raises \<open>e\<close> to its caller and \<open>Inr b\<close> when it returns \<open>b\<close>. The conversion and the
  rounding stand before the \<^verbatim>\<open>try\<close> block, so what \<^verbatim>\<open>round\<close> raises is not caught;
  what the write raises is caught, printed and turned into \<^verbatim>\<open>False\<close>.
\<close>

definition send_temperature ::
  "'w hid_api \<Rightarrow> controller \<Rightarrow> pyfloat \<Rightarrow> string \<Rightarrow> 'w sys \<Rightarrow>
   (exn + bool) \<times> controller \<times> 'w sys" where
  "send_temperature api self temp_celsius unit s =
     (case device self of
        None \<Rightarrow> (Inr False, self, print Msg_device_not_connected s)
      | Some (HidDevice h) \<Rightarrow>
          (let display_temp =
                 (if lower unit = ''f'' then to_fahrenheit temp_celsius else temp_celsius)
           in case py_round display_temp of
                Inl e \<Rightarrow> (Inl e, self, s)
              | Inr value_int \<Rightarrow>
                  (let value_int = max 0 (min 212 value_int);
                       report = build_display_report value_int
                   in case call_write api h report s of
                        (Inl e, s') \<Rightarrow> (Inr False, self, print (Msg_error_sending e) s')
                      | (Inr written, s') \<Rightarrow>
                          if written \<le> 0
                          then (Inr False, self,
                                print (Msg_error_sending (RuntimeError_write_returned written)) s')
                          else (Inr True, self, s'))))"

definition blank_display ::
  "'w hid_api \<Rightarrow> controller \<Rightarrow> 'w sys \<Rightarrow> (exn + bool) \<times> controller \<times> 'w sys" where
  "blank_display api self s =
     (case device self of
        None \<Rightarrow> (Inr False, self, print Msg_device_not_connected s)
      | Some (HidDevice h) \<Rightarrow>
          (let report = REPORT_ID # replicate (REPORT_LENGTH - 1) 0
           in case call_write api h report s of
                (Inl e, s') \<Rightarrow> (Inr False, self, print (Msg_error_blanking e) s')
              | (Inr written, s') \<Rightarrow>
                  if written \<le> 0
                  then (Inr False, self,
                        print (Msg_error_blanking (RuntimeError_write_returned written)) s')
                  else (Inr True, self, s')))"

section \<open>Sensors and the display loop\<close>










section \<open>Notions used in the statements\<close>

text \<open>
  The key of line 63, \<^verbatim>\<open>(d.get("interface_number"), d.get("path"))\<close>, and the test of
  line 64 negated: an entry is addressable when neither component is \<^verbatim>\<open>None\<close>.
\<close>

definition dev_key :: "device_info \<Rightarrow> dev_key" where
  "dev_key d = (info_interface_number d, info_path d)"

definition addressable :: "device_info \<Rightarrow> bool" where
  "addressable d = (info_interface_number d \<noteq> None \<and> info_path d \<noteq> None)"

text \<open>One iteration of the loop of \<^verbatim>\<open>_unique_devices\<close>, as a function on the dictionary.\<close>

definition unique_step ::
  "device_info \<Rightarrow> (dev_key \<times> device_info) list \<Rightarrow> (dev_key \<times> device_info) list" where
  "unique_step d uniq = (if addressable d then AList.update (dev_key d) d uniq else uniq)"

text \<open>Enumeration entries for the examples: two with the same key, one without a path.\<close>

definition dev_A :: device_info where
  "dev_A = \<lparr>info_interface_number = Some 1, info_path = Some [1],
            info_usage_page = Some 0xFF01, info_usage = Some 1\<rparr>"

definition dev_A' :: device_info where
  "dev_A' = \<lparr>info_interface_number = Some 1, info_path = Some [1],
             info_usage_page = Some 1, info_usage = Some 6\<rparr>"

definition dev_nopath :: device_info where
  "dev_nopath = \<lparr>info_interface_number = Some 2, info_path = None,
                 info_usage_page = Some 1, info_usage = Some 6\<rparr>"

text \<open>
  The two keys of \<^verbatim>\<open>score\<close>, read off a candidate (an absent \<^verbatim>\<open>usage_page\<close> or
  \<^verbatim>\<open>interface_number\<close> counts as 0, as \<^verbatim>\<open>or 0\<close> makes it), and the strict ranking they
  induce: vendor range before non-vendor range, then the higher interface number.
\<close>

definition vendor_range :: "device_info \<Rightarrow> bool" where
  "vendor_range d = (or_0 (info_usage_page d) \<ge> 0xFF00)"

definition iface_rank :: "device_info \<Rightarrow> int" where
  "iface_rank d = or_0 (info_interface_number d)"

definition ranks_before :: "device_info \<Rightarrow> device_info \<Rightarrow> bool" where
  "ranks_before a b =
     ((vendor_range a \<and> \<not> vendor_range b) \<or>
      (vendor_range a = vendor_range b \<and> iface_rank a > iface_rank b))"

text \<open>The candidates A, B and C of the ordering examples.\<close>

definition cand_A :: device_info where
  "cand_A = \<lparr>info_interface_number = Some 1, info_path = Some [1],
            info_usage_page = Some 0xFF01, info_usage = Some 1\<rparr>"

definition cand_B :: device_info where
  "cand_B = \<lparr>info_interface_number = Some 5, info_path = Some [5],
            info_usage_page = Some 0x0001, info_usage = Some 6\<rparr>"

definition cand_C :: device_info where
  "cand_C = \<lparr>info_interface_number = Some 3, info_path = Some [3],
            info_usage_page = Some 0xFF01, info_usage = Some 1\<rparr>"





text \<open>
  The controller is coherent when its three attributes are all \<^verbatim>\<open>None\<close>, or all set
  with the device object being the one created for the stored path.
\<close>

definition coherent :: "controller \<Rightarrow> bool" where
  "coherent c =
     (case (device c, interface_number c, path c) of
        (None, None, None) \<Rightarrow> True
      | (Some (HidDevice h), Some i, Some p) \<Rightarrow> h = p
      | _ \<Rightarrow> False)"

text \<open>
  A HID library for the examples, over a world that counts the calls: it enumerates the
  given entries, refuses to open the path \<open>[5]\<close>, writes nothing on the path \<open>[3]\<close> and
  the whole report elsewhere.
\<close>

definition ex_api :: "device_info list \<Rightarrow> nat hid_api" where
  "ex_api devices =
     \<lparr>hid_enumerate = (\<lambda>w. devices),
      hid_open_path = (\<lambda>p w. (if p = [5] then Some (HidException ''open failed'') else None, w + 1)),
      hid_write = (\<lambda>p report w. (if p = [3] then Inr 0 else Inr (int (length report)), w + 1)),
      hid_close = (\<lambda>p w. (None, w + 1))\<rparr>"

definition ex_sys :: "nat sys" where
  "ex_sys = \<lparr>world = 0, calls = [], stdout = []\<rparr>"

text \<open>The controller bound to candidate A.\<close>

definition ctl_A :: controller where
  "ctl_A = \<lparr>device = Some (HidDevice [1]), interface_number = Some 1, path = Some [1]\<rparr>"

text \<open>
  What a call of \<^verbatim>\<open>open\<close> can leave behind, given the candidates \<open>cs\<close> it may bind:
  failure with the controller untouched, or success with the three attributes taken
  from one candidate.
\<close>

definition open_outcome ::
  "controller \<Rightarrow> device_info list \<Rightarrow> bool \<times> controller \<times> 'w sys \<Rightarrow> bool" where
  "open_outcome self cs r =
     ((\<exists>s'. r = (False, self, s')) \<or>
      (\<exists>s' d i p. d \<in> set cs \<and> info_interface_number d = Some i \<and> info_path d = Some p \<and>
         r = (True, self\<lparr>device := Some (HidDevice p), interface_number := Some i,
                path := Some p\<rparr>, s')))"

text \<open>
  How the attempt on one candidate went, as far as \<^verbatim>\<open>open\<close> can tell: \<^verbatim>\<open>open_path\<close>
  raised, the probe write raised, or the probe write returned a byte count. From it,
  the calls the attempt made on the path \<open>p\<close> and the error it ended with, if any: an
  attempt is without error exactly when the path opened and the write returned a
  positive count.
\<close>

datatype attempt = Open_raised exn | Write_raised exn | Write_returned int

fun attempt_calls :: "bytes \<Rightarrow> attempt \<Rightarrow> event list" where
  "attempt_calls p (Open_raised e) = [OpenPath p (Some e)]"
| "attempt_calls p (Write_raised e) =
     [OpenPath p None, Write p (build_display_report 0) (Inl e)]"
| "attempt_calls p (Write_returned n) =
     [OpenPath p None, Write p (build_display_report 0) (Inr n)]"

fun attempt_error :: "attempt \<Rightarrow> exn option" where
  "attempt_error (Open_raised e) = Some e"
| "attempt_error (Write_raised e) = Some e"
| "attempt_error (Write_returned n) =
     (if 0 < n then None else Some (RuntimeError_write_returned n))"

text \<open>
  A failed attempt paired with what the closing of its handle gave back: the calls of
  the attempt, then the close.
\<close>

definition failed_attempt_calls :: "device_info \<Rightarrow> attempt \<times> exn option \<Rightarrow> event list" where
  "failed_attempt_calls c f =
     (case info_path c of
        None \<Rightarrow> []
      | Some p \<Rightarrow> attempt_calls p (fst f) @ [Close p (snd f)])"

text \<open>The value of \<^verbatim>\<open>last_err\<close> after the failed attempts \<open>fs\<close>.\<close>

definition last_error :: "exn option \<Rightarrow> (attempt \<times> exn option) list \<Rightarrow> exn option" where
  "last_error last_err fs = (if fs = [] then last_err else attempt_error (fst (last fs)))"

text \<open>
  What \<^verbatim>\<open>open\<close> has done when it returns \<open>res\<close>, started in \<open>s\<close> on the ordered
  candidates \<open>cs\<close>, in terms of the failed attempts \<open>fs\<close>: they are attempts on the first
  candidates in order, each with an error and each followed by the close of its handle.
  On success the next candidate was attempted without error, nothing was called after
  it, and the attributes are that candidate's; on failure every candidate was
  attempted, the attributes are untouched and the last error, if there is one, is
  printed after the no-working-interface message.
\<close>

definition open_post ::
  "device_info list \<Rightarrow> exn option \<Rightarrow> controller \<Rightarrow> 'w sys \<Rightarrow> (attempt \<times> exn option) list \<Rightarrow>
   bool \<times> controller \<times> 'w sys \<Rightarrow> bool" where
  "open_post cs last_err self s fs res =
     (case res of (ok, self', s') \<Rightarrow>
        length fs \<le> length cs \<and>
        (\<forall>f \<in> set fs. attempt_error (fst f) \<noteq> None) \<and>
        (if ok
         then (\<exists>a i p. length fs < length cs \<and>
                 info_interface_number (cs ! length fs) = Some i \<and>
                 info_path (cs ! length fs) = Some p \<and>
                 attempt_error a = None \<and>
                 calls s' = calls s @ concat (map2 failed_attempt_calls cs fs) @ attempt_calls p a \<and>
                 self' = self\<lparr>device := Some (HidDevice p), interface_number := Some i,
                           path := Some p\<rparr> \<and>
                 stdout s' = stdout s @ [Msg_connected i])
         else length fs = length cs \<and>
              calls s' = calls s @ concat (map2 failed_attempt_calls cs fs) \<and>
              self' = self \<and>
              stdout s' = stdout s @ Msg_no_working_interface #
                (case last_error last_err fs of None \<Rightarrow> [] | Some e \<Rightarrow> [Msg_last_error e])))"







section \<open>Properties of the report codec\<close>

lemma clamp_value_range: "0 \<le> clamp_value v \<and> clamp_value v \<le> 999"
  by (simp add: clamp_value_def)

lemma clamp_value_id: "0 \<le> v \<Longrightarrow> v \<le> 999 \<Longrightarrow> clamp_value v = v"
  by (simp add: clamp_value_def)

lemma digits_in_byte_range:
  "0 \<le> clamp_value v div 100 \<and> clamp_value v div 100 \<le> 9 \<and>
   0 \<le> (clamp_value v mod 100) div 10 \<and> (clamp_value v mod 100) div 10 \<le> 9 \<and>
   0 \<le> clamp_value v mod 10 \<and> clamp_value v mod 10 \<le> 9"
proof -
  define c where "c = clamp_value v"
  have c: "0 \<le> c" "c \<le> 999"
    using clamp_value_range [of v] by (simp_all add: c_def)
  have "c div 100 \<le> 999 div 100"
    using c(2) by (rule zdiv_mono1) simp
  then have h: "c div 100 \<le> 9"
    by simp
  have "c mod 100 < 100"
    by (rule pos_mod_bound) simp
  then have "c mod 100 \<le> 99"
    by simp
  then have "(c mod 100) div 10 \<le> 99 div 10"
    by (rule zdiv_mono1) simp
  then have t: "(c mod 100) div 10 \<le> 9"
    by simp
  have "c mod 10 < 10"
    by (rule pos_mod_bound) simp
  then have u: "c mod 10 \<le> 9"
    by simp
  have "0 \<le> c mod 100"
    by (rule pos_mod_sign) simp
  then have t0: "0 \<le> (c mod 100) div 10"
    by (rule pos_imp_zdiv_nonneg_iff [THEN iffD2, rotated]) simp
  have h0: "0 \<le> c div 100"
    using c(1) by (rule pos_imp_zdiv_nonneg_iff [THEN iffD2, rotated]) simp
  have u0: "0 \<le> c mod 10"
    by (rule pos_mod_sign) simp
  show ?thesis
    unfolding c_def [symmetric] by (intro conjI) (fact h h0 t t0 u u0)+
qed

lemma replicate_63:
  "replicate (REPORT_LENGTH - 1) (0::byte) = [0, 0, 0, 0, 0] @ replicate 58 0"
proof -
  have "REPORT_LENGTH - 1 = 5 + 58"
    by (simp add: REPORT_LENGTH_def)
  then have "replicate (REPORT_LENGTH - 1) (0::byte) = replicate 5 0 @ replicate 58 0"
    by (simp only: replicate_add)
  moreover have "replicate 5 (0::byte) = [0, 0, 0, 0, 0]"
    by (simp add: numeral_eq_Suc)
  ultimately show ?thesis by simp
qed

lemma build_display_report_explicit:
  "build_display_report v =
     [REPORT_ID, 0xFF, 0xFF,
      word_of_int (clamp_value v div 100),
      word_of_int ((clamp_value v mod 100) div 10),
      word_of_int (clamp_value v mod 10)] @ replicate 58 0"
  unfolding build_display_report_def Let_def replicate_63
  by (simp add: list_update_code(2,3) numeral_3_eq_3 numeral_2_eq_2 eval_nat_numeral(2,3)
        del: replicate.simps)

lemma unat_digit_byte:
  fixes d :: int
  assumes "0 \<le> d" "d \<le> 9"
  shows "unat (word_of_int d :: byte) = nat d"
proof -
  have "d < 2 ^ 8"
    using assms by simp
  then have "take_bit 8 d = d"
    using assms by (simp add: take_bit_int_eq_self)
  then show ?thesis
    by (simp add: unat_eq_nat_uint uint_word_of_int_eq)
qed

lemma unat_digit_byte_le:
  fixes d :: int
  assumes "0 \<le> d" "d \<le> 9"
  shows "unat (word_of_int d :: byte) \<le> 9" "int (unat (word_of_int d :: byte)) = d"
  using assms by (simp_all add: unat_digit_byte)

lemma build_display_report_length: "length (build_display_report v) = 64"
  by (simp add: build_display_report_explicit)

lemma build_display_report_header:
  "build_display_report v ! 0 = 0x07 \<and> build_display_report v ! 1 = 0xFF \<and>
   build_display_report v ! 2 = 0xFF"
  by (simp add: build_display_report_explicit REPORT_ID_def)

lemma build_display_report_digits:
  "build_display_report v ! 3 = word_of_int (clamp_value v div 100) \<and>
   build_display_report v ! 4 = word_of_int ((clamp_value v mod 100) div 10) \<and>
   build_display_report v ! 5 = word_of_int (clamp_value v mod 10)"
  by (simp add: build_display_report_explicit numeral_3_eq_3 eval_nat_numeral(2,3))

lemma build_display_report_padding:
  assumes "6 \<le> i" "i < 64"
  shows "build_display_report v ! i = 0"
proof -
  have "i - 6 < 58"
    using assms by simp
  moreover have "build_display_report v ! i = replicate 58 (0::byte) ! (i - 6)"
    using assms by (simp add: build_display_report_explicit nth_append del: replicate.simps)
  ultimately show ?thesis
    by (simp del: replicate.simps)
qed

lemma digits_recompose:
  fixes c :: int
  shows "c div 100 * 100 + (c mod 100) div 10 * 10 + c mod 10 = c"
proof -
  define h r t u where "h = c div 100" and "r = c mod 100" and "t = r div 10" and "u = r mod 10"
  have a: "c = h * 100 + r"
    unfolding h_def r_def by (simp only: div_mult_mod_eq)
  have b: "r = t * 10 + u"
    unfolding t_def u_def by (simp only: div_mult_mod_eq)
  have e: "u = c mod 10"
    unfolding u_def r_def by (simp add: mod_mod_cancel)
  have "h * 100 + t * 10 + u = c"
    using a b by simp
  then show ?thesis
    unfolding e unfolding h_def t_def r_def .
qed

text \<open>
  C3. For every integer \<open>v\<close> with \<open>0 \<le> v \<le> 999\<close> the report built for \<open>v\<close> has exactly
  \<open>REPORT_LENGTH = 64\<close> bytes; byte 0 is the report identifier \<open>0x07\<close>; bytes 1 and 2 are
  the marker \<open>0xFF\<close>; bytes 3, 4 and 5 are the hundreds, tens and ones digits of \<open>v\<close>, each
  between 0 and 9, and recompose to \<open>v\<close>; every byte from index 6 on is zero.
\<close>

theorem build_display_report_layout:
  assumes "0 \<le> v" and "v \<le> 999"
  shows "length (build_display_report v) = REPORT_LENGTH \<and> REPORT_LENGTH = 64 \<and>
         build_display_report v ! 0 = REPORT_ID \<and> REPORT_ID = 0x07 \<and>
         build_display_report v ! 1 = 0xFF \<and> build_display_report v ! 2 = 0xFF \<and>
         int (unat (build_display_report v ! 3)) = v div 100 \<and>
         int (unat (build_display_report v ! 4)) = (v mod 100) div 10 \<and>
         int (unat (build_display_report v ! 5)) = v mod 10 \<and>
         unat (build_display_report v ! 3) \<le> 9 \<and>
         unat (build_display_report v ! 4) \<le> 9 \<and>
         unat (build_display_report v ! 5) \<le> 9 \<and>
         int (unat (build_display_report v ! 3)) * 100 +
           int (unat (build_display_report v ! 4)) * 10 +
           int (unat (build_display_report v ! 5)) = v \<and>
         (\<forall>i. 6 \<le> i \<and> i < REPORT_LENGTH \<longrightarrow> build_display_report v ! i = 0)"
proof -
  have c: "clamp_value v = v"
    using assms by (rule clamp_value_id)
  have rng: "0 \<le> v div 100" "v div 100 \<le> 9" "0 \<le> (v mod 100) div 10"
    "(v mod 100) div 10 \<le> 9" "0 \<le> v mod 10" "v mod 10 \<le> 9"
    using digits_in_byte_range [of v] unfolding c by blast+
  have d: "build_display_report v ! 3 = word_of_int (v div 100)"
    "build_display_report v ! 4 = word_of_int ((v mod 100) div 10)"
    "build_display_report v ! 5 = word_of_int (v mod 10)"
    using build_display_report_digits [of v] unfolding c by blast+
  have dig: "int (unat (build_display_report v ! 3)) = v div 100"
    "int (unat (build_display_report v ! 4)) = (v mod 100) div 10"
    "int (unat (build_display_report v ! 5)) = v mod 10"
    unfolding d
    by (rule unat_digit_byte_le(2) [OF rng(1,2)] unat_digit_byte_le(2) [OF rng(3,4)]
        unat_digit_byte_le(2) [OF rng(5,6)])+
  have le9: "unat (build_display_report v ! 3) \<le> 9" "unat (build_display_report v ! 4) \<le> 9"
    "unat (build_display_report v ! 5) \<le> 9"
    unfolding d
    by (rule unat_digit_byte_le(1) [OF rng(1,2)] unat_digit_byte_le(1) [OF rng(3,4)]
        unat_digit_byte_le(1) [OF rng(5,6)])+
  have sum': "int (unat (build_display_report v ! 3)) * 100 +
           int (unat (build_display_report v ! 4)) * 10 +
           int (unat (build_display_report v ! 5)) = v"
    unfolding dig by (rule digits_recompose)
  have pad: "\<forall>i. 6 \<le> i \<and> i < REPORT_LENGTH \<longrightarrow> build_display_report v ! i = 0"
    by (simp add: REPORT_LENGTH_def build_display_report_padding)
  have len: "length (build_display_report v) = REPORT_LENGTH" "REPORT_LENGTH = 64"
    by (simp_all add: build_display_report_length REPORT_LENGTH_def)
  have hdr: "build_display_report v ! 0 = REPORT_ID" "REPORT_ID = 0x07"
    "build_display_report v ! 1 = 0xFF" "build_display_report v ! 2 = 0xFF"
    using build_display_report_header [of v] by (simp_all add: REPORT_ID_def)
  show ?thesis
    by (intro conjI) (fact len hdr dig le9 sum' pad)+
qed

theorem build_display_report_layout_witness:
  "(0::int) \<le> 45 \<and> (45::int) \<le> 999 \<and>
   build_display_report 45 = [0x07, 0xFF, 0xFF, 0, 4, 5] @ replicate 58 0 \<and>
   int (unat (build_display_report 45 ! 3)) * 100 +
     int (unat (build_display_report 45 ! 4)) * 10 +
     int (unat (build_display_report 45 ! 5)) = 45"
proof -
  have h: "(0::int) \<le> 45" "(45::int) \<le> 999"
    by simp_all
  have "build_display_report 45 = [0x07, 0xFF, 0xFF, 0, 4, 5] @ replicate 58 0"
    by (simp add: build_display_report_explicit clamp_value_def REPORT_ID_def
          del: replicate.simps)
  moreover have "int (unat (build_display_report 45 ! 3)) * 100 +
     int (unat (build_display_report 45 ! 4)) * 10 +
     int (unat (build_display_report 45 ! 5)) = 45"
    using build_display_report_layout [OF h] by (elim conjE)
  ultimately show ?thesis
    using h by (intro conjI)
qed

text \<open>
  C7. A negative value is encoded as 0 is, a value above 999 as 999 is, and the clamp
  applied by the encoder is idempotent.
\<close>

theorem build_display_report_clamps:
  "(v < 0 \<longrightarrow> build_display_report v = build_display_report 0) \<and>
   (999 < w \<longrightarrow> build_display_report w = build_display_report 999) \<and>
   clamp_value (clamp_value u) = clamp_value u"
  by (simp add: build_display_report_def clamp_value_def)

theorem build_display_report_clamps_witness:
  "(-5::int) < 0 \<and> build_display_report (-5) = build_display_report 0 \<and>
   (999::int) < 1000 \<and> build_display_report 1000 = build_display_report 999 \<and>
   clamp_value (clamp_value 1000) = clamp_value 1000 \<and> clamp_value 1000 = 999 \<and>
   clamp_value (-5) = 0"
  using build_display_report_clamps [of "-5" 1000 1000]
  by (simp add: clamp_value_def)

section \<open>Deduplication\<close>

lemma unique_loop_Cons: "unique_loop (d # ds) uniq = unique_loop ds (unique_step d uniq)"
  by (simp add: unique_step_def addressable_def dev_key_def)

lemma unique_loop_append: "unique_loop (xs @ ys) uniq = unique_loop ys (unique_loop xs uniq)"
  by (induction xs arbitrary: uniq) (simp_all only: unique_loop_Cons append.simps unique_loop.simps(1))

lemma unique_loop_snoc: "unique_loop (xs @ [d]) uniq = unique_step d (unique_loop xs uniq)"
  by (simp only: unique_loop_append unique_loop_Cons unique_loop.simps(1))

lemma keys_unique_loop:
  "map fst (unique_loop ds []) = rev (remdups (rev (map dev_key (filter addressable ds))))"
proof (induction ds rule: rev_induct)
  case Nil
  show ?case by simp
next
  case (snoc d ds)
  show ?case
  proof (cases "addressable d")
    case False
    then show ?thesis using snoc by (simp add: unique_loop_snoc unique_step_def)
  next
    case True
    then show ?thesis using snoc
      by (simp add: unique_loop_snoc unique_step_def update_keys)
  qed
qed

lemma distinct_keys_unique_loop: "distinct (map fst (unique_loop ds []))"
  by (simp add: keys_unique_loop)

lemma map_of_unique_loop:
  "map_of (unique_loop ds []) k =
     (let m = filter (\<lambda>d. addressable d \<and> dev_key d = k) ds in if m = [] then None else Some (last m))"
proof (induction ds rule: rev_induct)
  case Nil
  show ?case by simp
next
  case (snoc d ds)
  then show ?case
    by (simp add: unique_loop_snoc unique_step_def update_conv' Let_def)
qed

lemma unique_loop_entry:
  assumes "(k, v) \<in> set (unique_loop ds [])"
  shows "k = dev_key v \<and> addressable v \<and> v = last (filter (\<lambda>d. dev_key d = dev_key v) ds)"
proof -
  let ?m = "filter (\<lambda>d. addressable d \<and> dev_key d = k) ds"
  have "map_of (unique_loop ds []) k = Some v"
    using assms distinct_keys_unique_loop [of ds] by simp
  then have m: "?m \<noteq> []" "v = last ?m"
    by (simp_all add: map_of_unique_loop Let_def split: if_splits)
  then have "v \<in> set ?m"
    using last_in_set by metis
  then have v: "addressable v" "dev_key v = k"
    by simp_all
  have "addressable d \<and> dev_key d = k \<longleftrightarrow> dev_key d = dev_key v" for d
    using v by (auto simp: addressable_def dev_key_def)
  then have "?m = filter (\<lambda>d. dev_key d = dev_key v) ds"
    by simp
  then show ?thesis
    using v m(2) by simp
qed

lemma keys_unique_devices: "map dev_key (unique_devices ds) = map fst (unique_loop ds [])"
  unfolding unique_devices_def map_map
  by (rule map_cong [OF refl]) (use unique_loop_entry in \<open>auto simp: comp_def\<close>)

text \<open>
  C1 (amended). For every enumerated list, \<^verbatim>\<open>_unique_devices\<close> returns exactly one entry
  per distinct pair \<open>(interface_number, path)\<close> among the entries that have both fields,
  and no entry that misses one of them; the entry returned for a pair is the last one
  enumerated with that pair, and the entries stand in the order in which their pairs
  first occur.
\<close>

theorem unique_devices_keeps_last:
  "distinct (map dev_key (unique_devices ds)) \<and>
   set (map dev_key (unique_devices ds)) = dev_key ` {d \<in> set ds. addressable d} \<and>
   (\<forall>r \<in> set (unique_devices ds).
      addressable r \<and> r = last (filter (\<lambda>d. dev_key d = dev_key r) ds)) \<and>
   map dev_key (unique_devices ds) = rev (remdups (rev (map dev_key (filter addressable ds))))"
proof -
  have order: "map dev_key (unique_devices ds) =
      rev (remdups (rev (map dev_key (filter addressable ds))))"
    by (simp only: keys_unique_devices keys_unique_loop)
  have dist: "distinct (map dev_key (unique_devices ds))"
    by (simp only: keys_unique_devices distinct_keys_unique_loop)
  have keys: "set (map dev_key (unique_devices ds)) = dev_key ` {d \<in> set ds. addressable d}"
    unfolding order by auto
  have entries: "\<forall>r \<in> set (unique_devices ds).
      addressable r \<and> r = last (filter (\<lambda>d. dev_key d = dev_key r) ds)"
  proof
    fix r
    assume "r \<in> set (unique_devices ds)"
    then obtain k where "(k, r) \<in> set (unique_loop ds [])"
      by (auto simp: unique_devices_def)
    then show "addressable r \<and> r = last (filter (\<lambda>d. dev_key d = dev_key r) ds)"
      using unique_loop_entry by blast
  qed
  show ?thesis
    using dist keys entries order by (intro conjI)
qed

text \<open>
  C1 as stated fails: of two entries with the same pair that differ elsewhere, the
  second is returned, not the first.
\<close>

theorem unique_devices_first_counterexample:
  "dev_key dev_A = dev_key dev_A' \<and> unique_devices [dev_A, dev_A'] = [dev_A'] \<and> dev_A' \<noteq> dev_A"
  by (simp add: unique_devices_def dev_A_def dev_A'_def dev_key_def)

theorem unique_devices_keeps_last_witness:
  "set (unique_devices [dev_A, dev_nopath, dev_A']) = {dev_A'} \<and>
   addressable dev_A' \<and>
   dev_A' = last (filter (\<lambda>d. dev_key d = dev_key dev_A') [dev_A, dev_nopath, dev_A'])"
proof -
  have u: "unique_devices [dev_A, dev_nopath, dev_A'] = [dev_A']"
    by (simp add: unique_devices_def dev_A_def dev_A'_def dev_nopath_def)
  then have "dev_A' \<in> set (unique_devices [dev_A, dev_nopath, dev_A'])"
    by simp
  with unique_devices_keeps_last [of "[dev_A, dev_nopath, dev_A']"]
  have "addressable dev_A' \<and>
   dev_A' = last (filter (\<lambda>d. dev_key d = dev_key dev_A') [dev_A, dev_nopath, dev_A'])"
    by blast
  then show ?thesis
    using u by simp
qed

section \<open>Candidate ordering\<close>

lemma or_0_Some: "or_0 (Some n) = n" "or_0 None = 0"
  by (simp_all add: or_0_def)

lemma score_eq: "score d = (if vendor_range d then 1 else 0, iface_rank d)"
  by (simp add: score_def vendor_range_def iface_rank_def Let_def)

lemma score_le_iff:
  "score b \<le> score a \<longleftrightarrow>
     (vendor_range a \<and> \<not> vendor_range b) \<or>
     (vendor_range a = vendor_range b \<and> iface_rank b \<le> iface_rank a)"
  by (auto simp: score_eq less_eq_prod_def)

lemma score_less_iff: "score b < score a \<longleftrightarrow> ranks_before a b"
  by (auto simp: score_eq less_prod_def ranks_before_def)

lemma sorted_candidates_desc:
  "sorted_wrt (\<lambda>a b. score b \<le> score a) (sorted_candidates ds)"
proof -
  have "sorted (map score (sort_key score (rev ds)))"
    by (rule sorted_sort_key)
  then have "sorted_wrt (\<lambda>a b. score a \<le> score b) (sort_key score (rev ds))"
    by (simp add: sorted_wrt_map)
  then show ?thesis
    by (simp add: sorted_candidates_def sorted_wrt_rev)
qed

lemma sorted_candidates_stable:
  "filter (\<lambda>d. score d = k) (sorted_candidates ds) = filter (\<lambda>d. score d = k) ds"
  by (simp add: sorted_candidates_def rev_filter [symmetric] sort_key_stable)

lemma mset_sorted_candidates: "mset (sorted_candidates ds) = mset ds"
  by (simp add: sorted_candidates_def)

text \<open>
  C6. For every candidate list, \<^verbatim>\<open>_sorted_candidates\<close> returns a rearrangement of it
  in which no candidate stands behind one it ranks before, where \<open>a\<close> ranks before \<open>b\<close>
  when \<open>a\<close> alone has a usage page of at least \<open>0xFF00\<close>, or both agree on that and \<open>a\<close>
  has the higher interface number; so whenever \<open>a\<close> ranks before \<open>b\<close> and both are in
  the list, \<open>a\<close> comes out before \<open>b\<close>. The witness is the claim's example: A (usage
  page \<open>0xFF01\<close>, interface 1) before B (usage page 1, interface 5), and C (usage page
  \<open>0xFF01\<close>, interface 3) before A.
\<close>

theorem sorted_candidates_order:
  "mset (sorted_candidates ds) = mset ds \<and>
   (\<forall>i j. i < j \<and> j < length (sorted_candidates ds) \<longrightarrow>
      \<not> ranks_before (sorted_candidates ds ! j) (sorted_candidates ds ! i)) \<and>
   (\<forall>a b. ranks_before a b \<and> a \<in> set ds \<and> b \<in> set ds \<longrightarrow>
      (\<exists>i j. i < j \<and> j < length (sorted_candidates ds) \<and>
         sorted_candidates ds ! i = a \<and> sorted_candidates ds ! j = b))"
proof -
  let ?r = "sorted_candidates ds"
  have nth: "score (?r ! j) \<le> score (?r ! i)" if "i < j" "j < length ?r" for i j
    using sorted_candidates_desc [of ds] that by (simp add: sorted_wrt_iff_nth_less)
  have 1: "\<forall>i j. i < j \<and> j < length ?r \<longrightarrow> \<not> ranks_before (?r ! j) (?r ! i)"
  proof (intro allI impI)
    fix i j
    assume "i < j \<and> j < length ?r"
    then have "score (?r ! j) \<le> score (?r ! i)"
      using nth by blast
    then have "\<not> score (?r ! i) < score (?r ! j)"
      by (simp add: not_less)
    then show "\<not> ranks_before (?r ! j) (?r ! i)"
      using score_less_iff by blast
  qed
  have 2: "\<exists>i j. i < j \<and> j < length ?r \<and> ?r ! i = a \<and> ?r ! j = b"
    if ab: "ranks_before a b" "a \<in> set ds" "b \<in> set ds" for a b
  proof -
    have "set ?r = set ds"
      using mset_sorted_candidates [of ds] by (rule mset_eq_setD)
    then obtain i j where ij: "i < length ?r" "?r ! i = a" "j < length ?r" "?r ! j = b"
      using ab(2,3) by (metis in_set_conv_nth)
    have lt: "score b < score a"
      using ab(1) by (simp add: score_less_iff)
    have "i < j"
    proof (rule ccontr)
      assume "\<not> i < j"
      then have "j < i \<or> j = i" by auto
      then show False
      proof
        assume "j < i"
        then have "score (?r ! i) \<le> score (?r ! j)"
          using nth ij(1) by simp
        then show False using lt ij by simp
      next
        assume "j = i"
        then show False using lt ij by simp
      qed
    qed
    then show ?thesis using ij by blast
  qed
  show ?thesis
    using mset_sorted_candidates [of ds] 1 2 by blast
qed

theorem sorted_candidates_order_witness:
  "sorted_candidates [cand_B, cand_A, cand_C] = [cand_C, cand_A, cand_B] \<and>
   ranks_before cand_A cand_B \<and> ranks_before cand_C cand_A \<and>
   \<not> ranks_before cand_A cand_C \<and> \<not> ranks_before cand_B cand_A \<and>
   (\<exists>i j. i < j \<and> j < length (sorted_candidates [cand_B, cand_A, cand_C]) \<and>
      sorted_candidates [cand_B, cand_A, cand_C] ! i = cand_A \<and>
      sorted_candidates [cand_B, cand_A, cand_C] ! j = cand_B) \<and>
   (\<exists>i j. i < j \<and> j < length (sorted_candidates [cand_B, cand_A, cand_C]) \<and>
      sorted_candidates [cand_B, cand_A, cand_C] ! i = cand_C \<and>
      sorted_candidates [cand_B, cand_A, cand_C] ! j = cand_A)"
proof -
  let ?ds = "[cand_B, cand_A, cand_C]"
  note ord = sorted_candidates_order [of ?ds]
  have r: "sorted_candidates ?ds = [cand_C, cand_A, cand_B]"
    by (simp add: sorted_candidates_def score_def or_0_def cand_A_def cand_B_def cand_C_def)
  have rb: "ranks_before cand_A cand_B" "ranks_before cand_C cand_A"
    by (simp_all add: ranks_before_def vendor_range_def iface_rank_def or_0_def
          cand_A_def cand_B_def cand_C_def)
  have "(0::nat) < 1 \<and> 1 < length (sorted_candidates ?ds)"
    by (simp add: r)
  then have "\<not> ranks_before (sorted_candidates ?ds ! 1) (sorted_candidates ?ds ! 0)"
    using ord by blast
  then have n1: "\<not> ranks_before cand_A cand_C"
    by (simp add: r)
  have "(1::nat) < 2 \<and> 2 < length (sorted_candidates ?ds)"
    by (simp add: r)
  then have "\<not> ranks_before (sorted_candidates ?ds ! 2) (sorted_candidates ?ds ! 1)"
    using ord by blast
  then have n2: "\<not> ranks_before cand_B cand_A"
    by (simp add: r)
  have "ranks_before cand_A cand_B \<and> cand_A \<in> set ?ds \<and> cand_B \<in> set ?ds"
    using rb by simp
  then have e1: "\<exists>i j. i < j \<and> j < length (sorted_candidates ?ds) \<and>
      sorted_candidates ?ds ! i = cand_A \<and> sorted_candidates ?ds ! j = cand_B"
    using ord by blast
  have "ranks_before cand_C cand_A \<and> cand_C \<in> set ?ds \<and> cand_A \<in> set ?ds"
    using rb by simp
  then have e2: "\<exists>i j. i < j \<and> j < length (sorted_candidates ?ds) \<and>
      sorted_candidates ?ds ! i = cand_C \<and> sorted_candidates ?ds ! j = cand_A"
    using ord by blast
  show ?thesis
    using r rb n1 n2 e1 e2 by (intro conjI)
qed

section \<open>Sensor lookup\<close>










section \<open>The connection\<close>

lemma addressable_unique_devices:
  assumes "r \<in> set (unique_devices ds)"
  shows "addressable r \<and> r \<in> set ds"
proof -
  obtain k where k: "(k, r) \<in> set (unique_loop ds [])"
    using assms by (auto simp: unique_devices_def)
  let ?m = "filter (\<lambda>d. dev_key d = dev_key r) ds"
  have r: "addressable r" "r = last ?m"
    using unique_loop_entry [OF k] by simp_all
  have "r \<in> set ds"
  proof (cases "?m = []")
    case False
    then have "last ?m \<in> set ?m" by (rule last_in_set)
    then show ?thesis using r(2) by simp
  next
    case True
    have "map_of (unique_loop ds []) k = Some r"
      using k distinct_keys_unique_loop [of ds] by simp
    then have "filter (\<lambda>d. addressable d \<and> dev_key d = k) ds \<noteq> []"
      by (simp add: map_of_unique_loop Let_def split: if_splits)
    moreover have "k = dev_key r"
      using unique_loop_entry [OF k] by simp
    ultimately have "?m \<noteq> []"
      by (auto simp: filter_empty_conv)
    then show ?thesis using True by simp
  qed
  then show ?thesis using r(1) by simp
qed

lemma set_sorted_candidates: "set (sorted_candidates ds) = set ds"
  by (simp add: sorted_candidates_def)

lemma open_outcome_mono: "open_outcome self cs r \<Longrightarrow> set cs \<subseteq> set cs' \<Longrightarrow> open_outcome self cs' r"
  unfolding open_outcome_def by blast

lemma open_loop_controller: "open_outcome self cs (open_loop api cs last_err self s)"
proof (induction cs arbitrary: last_err s)
  case Nil
  show ?case by (simp add: Let_def open_outcome_def)
next
  case (Cons c cs)
  have sub: "set cs \<subseteq> set (c # cs)"
    by auto
  show ?case
  proof (cases "info_interface_number c")
    case None
    then have "open_loop api (c # cs) last_err self s = open_loop api cs last_err self s"
      by simp
    then show ?thesis
      using open_outcome_mono [OF Cons sub] by simp
  next
    case (Some i)
    note i = this
    show ?thesis
    proof (cases "info_path c")
      case None
      then have "open_loop api (c # cs) last_err self s = open_loop api cs last_err self s"
        using i by simp
      then show ?thesis
        using open_outcome_mono [OF Cons sub] by simp
    next
      case (Some p)
      obtain r s1 where t: "try_candidate api p s = (r, s1)"
        by (cases "try_candidate api p s")
      show ?thesis
      proof (cases r)
        case (Inl e)
        then have "open_loop api (c # cs) last_err self s =
            open_loop api cs (Some e) self (close_quietly api p s1)"
          using i Some t by simp
        then show ?thesis
          using open_outcome_mono [OF Cons sub] by simp
      next
        case (Inr u)
        then have "open_loop api (c # cs) last_err self s =
            (True, self\<lparr>device := Some (HidDevice p), interface_number := Some i,
                path := Some p\<rparr>, print (Msg_connected i) s1)"
          using i Some t by simp
        moreover have "c \<in> set (c # cs)"
          by simp
        ultimately show ?thesis
          unfolding open_outcome_def using i Some by blast
      qed
    qed
  qed
qed

lemma open_controller_cases:
  "open_outcome self (hid_enumerate api (world s)) (open_controller api self s)"
proof (cases "hid_enumerate api (world s) = []")
  case True
  then show ?thesis by (simp add: open_controller_def open_outcome_def)
next
  case False
  let ?cs = "sorted_candidates (unique_devices (hid_enumerate api (world s)))"
  have sub: "set ?cs \<subseteq> set (hid_enumerate api (world s))"
    using addressable_unique_devices by (auto simp: set_sorted_candidates)
  have eq: "open_controller api self s = open_loop api ?cs None self s"
    using False by (simp add: open_controller_def)
  show ?thesis
    unfolding eq using open_loop_controller sub by (rule open_outcome_mono)
qed

lemma coherent_bind:
  "coherent (self\<lparr>device := Some (HidDevice p), interface_number := Some i, path := Some p\<rparr>)"
  by (simp add: coherent_def)

lemma coherent_closed: "coherent self \<Longrightarrow> device self = None \<Longrightarrow> self = init"
  by (cases self) (auto simp: coherent_def init_def split: option.splits hid_device.splits)

lemma close_controller_init:
  "coherent self \<Longrightarrow> fst (close_controller api self s) = init"
  by (cases self)
    (auto simp: close_controller_def coherent_def init_def split: option.splits hid_device.splits prod.splits)

lemma close_controller_noop: "device self = None \<Longrightarrow> close_controller api self s = (self, s)"
  by (simp add: close_controller_def)

lemma send_temperature_controller: "fst (snd (send_temperature api self t unit s)) = self"
  by (simp add: send_temperature_def Let_def split: option.splits hid_device.splits sum.splits prod.splits)

lemma blank_display_controller: "fst (snd (blank_display api self s)) = self"
  by (simp add: blank_display_def Let_def split: option.splits hid_device.splits sum.splits prod.splits)


text \<open>
  C8. When no device handle is open, \<^verbatim>\<open>send_temperature\<close> and \<^verbatim>\<open>blank_display\<close> both
  return \<^verbatim>\<open>False\<close> (they return, nothing is raised), print the not-connected message
  and nothing else, and leave the HID world and the log of calls as they were: no write
  is performed.
\<close>

theorem not_connected_fails:
  assumes "device self = None"
  shows "send_temperature api self temp_celsius unit s =
           (Inr False, self, s\<lparr>stdout := stdout s @ [Msg_device_not_connected]\<rparr>) \<and>
         blank_display api self s =
           (Inr False, self, s\<lparr>stdout := stdout s @ [Msg_device_not_connected]\<rparr>) \<and>
         calls (snd (snd (send_temperature api self temp_celsius unit s))) = calls s \<and>
         world (snd (snd (send_temperature api self temp_celsius unit s))) = world s \<and>
         calls (snd (snd (blank_display api self s))) = calls s \<and>
         world (snd (snd (blank_display api self s))) = world s"
  using assms by (simp add: send_temperature_def blank_display_def print_def)

theorem not_connected_fails_witness:
  "device init = None \<and>
   send_temperature (ex_api [cand_A]) init NaN ''f'' ex_sys =
     (Inr False, init, \<lparr>world = 0, calls = [], stdout = [Msg_device_not_connected]\<rparr>) \<and>
   blank_display (ex_api [cand_A]) init ex_sys =
     (Inr False, init, \<lparr>world = 0, calls = [], stdout = [Msg_device_not_connected]\<rparr>)"
proof -
  have h: "device init = None"
    by (simp add: init_def)
  show ?thesis
    using h not_connected_fails [OF h, of "ex_api [cand_A]" NaN "''f''" ex_sys]
    by (simp add: ex_sys_def)
qed

text \<open>
  C9. The freshly constructed controller is coherent. From a coherent controller,
  \<^verbatim>\<open>open\<close> leaves a coherent one: on failure the attributes are untouched, on success
  all three are those of one enumerated candidate; \<^verbatim>\<open>close\<close> leaves all three \<^verbatim>\<open>None\<close>
  and does nothing at all on a closed controller; \<^verbatim>\<open>send_temperature\<close> and
  \<^verbatim>\<open>blank_display\<close> leave the attributes as they were.
\<close>

theorem controller_coherent:
  "coherent init \<and>
   (coherent self \<longrightarrow>
      coherent (fst (snd (open_controller api self s))) \<and>
      (\<not> fst (open_controller api self s) \<longrightarrow> fst (snd (open_controller api self s)) = self) \<and>
      (fst (open_controller api self s) \<longrightarrow>
         (\<exists>d \<in> set (hid_enumerate api (world s)). \<exists>i p.
            info_interface_number d = Some i \<and> info_path d = Some p \<and>
            fst (snd (open_controller api self s)) =
              \<lparr>device = Some (HidDevice p), interface_number = Some i, path = Some p\<rparr>)) \<and>
      fst (close_controller api self s) = init \<and>
      (device self = None \<longrightarrow> close_controller api self s = (self, s)) \<and>
      fst (snd (send_temperature api self temp_celsius unit s)) = self \<and>
      fst (snd (blank_display api self s)) = self)"
proof -
  have 0: "coherent init"
    by (simp add: coherent_def init_def)
  have bind: "self\<lparr>device := Some (HidDevice p), interface_number := Some i, path := Some p\<rparr> =
      \<lparr>device = Some (HidDevice p), interface_number = Some i, path = Some p\<rparr>" for p i
    by (cases self) simp
  note oc = open_controller_cases [of self api s, unfolded open_outcome_def]
  have 1: "coherent (fst (snd (open_controller api self s)))" if "coherent self"
    using oc that coherent_bind by (elim disjE exE conjE) simp_all
  have 2: "\<not> fst (open_controller api self s) \<longrightarrow> fst (snd (open_controller api self s)) = self"
    using oc by (elim disjE exE conjE) simp_all
  have 3: "fst (open_controller api self s) \<longrightarrow>
         (\<exists>d \<in> set (hid_enumerate api (world s)). \<exists>i p.
            info_interface_number d = Some i \<and> info_path d = Some p \<and>
            fst (snd (open_controller api self s)) =
              \<lparr>device = Some (HidDevice p), interface_number = Some i, path = Some p\<rparr>)"
    using oc
  proof (elim disjE exE conjE)
    fix s'
    assume "open_controller api self s = (False, self, s')"
    then show ?thesis by simp
  next
    fix s' d i p
    assume "d \<in> set (hid_enumerate api (world s))" "info_interface_number d = Some i"
      "info_path d = Some p"
      "open_controller api self s =
        (True, self\<lparr>device := Some (HidDevice p), interface_number := Some i, path := Some p\<rparr>, s')"
    then show ?thesis
      by (auto simp: bind)
  qed
  have 4: "fst (close_controller api self s) = init" if "coherent self"
    using that by (rule close_controller_init)
  have 5: "device self = None \<longrightarrow> close_controller api self s = (self, s)"
    by (simp add: close_controller_noop)
  show ?thesis
    using 0 1 2 3 4 5 send_temperature_controller blank_display_controller
    by (intro conjI impI) simp_all
qed

theorem controller_coherent_witness:
  "coherent init \<and>
   open_controller (ex_api [cand_B, cand_A, cand_C]) init ex_sys =
     (True, ctl_A,
      \<lparr>world = 5,
       calls = [OpenPath [3] None, Write [3] (build_display_report 0) (Inr 0), Close [3] None,
                OpenPath [1] None, Write [1] (build_display_report 0) (Inr 64)],
       stdout = [Msg_connected 1]\<rparr>) \<and>
   coherent ctl_A \<and>
   (\<exists>d \<in> set [cand_B, cand_A, cand_C]. \<exists>i p.
      info_interface_number d = Some i \<and> info_path d = Some p \<and>
      ctl_A = \<lparr>device = Some (HidDevice p), interface_number = Some i, path = Some p\<rparr>) \<and>
   \<not> fst (open_controller (ex_api []) ctl_A ex_sys) \<and>
   fst (snd (open_controller (ex_api []) ctl_A ex_sys)) = ctl_A \<and>
   fst (close_controller (ex_api []) ctl_A ex_sys) = init \<and>
   device init = None \<and>
   close_controller (ex_api []) init ex_sys = (init, ex_sys) \<and>
   fst (snd (send_temperature (ex_api []) ctl_A (Finite 45) ''c'' ex_sys)) = ctl_A \<and>
   fst (snd (blank_display (ex_api []) ctl_A ex_sys)) = ctl_A"
proof -
  let ?api = "ex_api [cand_B, cand_A, cand_C]"
  note t1 = controller_coherent
    [where self = init and api = ?api and s = ex_sys and temp_celsius = NaN and unit = "''c''"]
  note t2 = controller_coherent
    [where self = ctl_A and api = "ex_api []" and s = ex_sys and temp_celsius = "Finite 45"
       and unit = "''c''"]
  have o: "open_controller ?api init ex_sys =
     (True, ctl_A,
      \<lparr>world = 5,
       calls = [OpenPath [3] None, Write [3] (build_display_report 0) (Inr 0), Close [3] None,
                OpenPath [1] None, Write [1] (build_display_report 0) (Inr 64)],
       stdout = [Msg_connected 1]\<rparr>)"
    by code_simp
  have e: "hid_enumerate ?api (world ex_sys) = [cand_B, cand_A, cand_C]"
    by (simp add: ex_api_def)
  have i: "coherent init"
    using t1 by blast
  have a: "coherent ctl_A"
    using t1 i o by simp
  have b: "\<exists>d \<in> set [cand_B, cand_A, cand_C]. \<exists>i p.
      info_interface_number d = Some i \<and> info_path d = Some p \<and>
      ctl_A = \<lparr>device = Some (HidDevice p), interface_number = Some i, path = Some p\<rparr>"
    using t1 i o e by simp
  have n: "\<not> fst (open_controller (ex_api []) ctl_A ex_sys)"
    by code_simp
  have c: "fst (snd (open_controller (ex_api []) ctl_A ex_sys)) = ctl_A"
    using t2 a n by blast
  have d: "fst (close_controller (ex_api []) ctl_A ex_sys) = init"
    using t2 a by blast
  have di: "device init = None"
    by (simp add: init_def)
  note t3 = controller_coherent
    [where self = init and api = "ex_api []" and s = ex_sys and temp_celsius = NaN and unit = "''c''"]
  have f: "close_controller (ex_api []) init ex_sys = (init, ex_sys)"
    using t3 i di by blast
  have g: "fst (snd (send_temperature (ex_api []) ctl_A (Finite 45) ''c'' ex_sys)) = ctl_A"
    "fst (snd (blank_display (ex_api []) ctl_A ex_sys)) = ctl_A"
    using t2 a by blast+
  show ?thesis
    using i o a b n c d di f g by (intro conjI)
qed

section \<open>Opening the device\<close>

lemma try_candidate_attempt:
  "\<exists>a. calls (snd (try_candidate api p s)) = calls s @ attempt_calls p a \<and>
       stdout (snd (try_candidate api p s)) = stdout s \<and>
       (case fst (try_candidate api p s) of
          Inr _ \<Rightarrow> attempt_error a = None
        | Inl e \<Rightarrow> attempt_error a = Some e)"
proof -
  obtain r1 w1 where o: "hid_open_path api p (world s) = (r1, w1)"
    by (cases "hid_open_path api p (world s)")
  show ?thesis
  proof (cases r1)
    case (Some e)
    then have "calls (snd (try_candidate api p s)) = calls s @ attempt_calls p (Open_raised e)"
      "stdout (snd (try_candidate api p s)) = stdout s"
      "fst (try_candidate api p s) = Inl e"
      using o by (simp_all add: try_candidate_def call_open_path_def)
    then show ?thesis
      by (intro exI [of _ "Open_raised e"]) simp
  next
    case None
    obtain r2 w2 where w: "hid_write api p (build_display_report 0) w1 = (r2, w2)"
      by (cases "hid_write api p (build_display_report 0) w1")
    show ?thesis
    proof (cases r2)
      case (Inl e)
      then have "calls (snd (try_candidate api p s)) = calls s @ attempt_calls p (Write_raised e)"
        "stdout (snd (try_candidate api p s)) = stdout s"
        "fst (try_candidate api p s) = Inl e"
        using o None w by (simp_all add: try_candidate_def call_open_path_def call_write_def Let_def)
      then show ?thesis
        by (intro exI [of _ "Write_raised e"]) simp
    next
      case (Inr n)
      then have "calls (snd (try_candidate api p s)) = calls s @ attempt_calls p (Write_returned n)"
        "stdout (snd (try_candidate api p s)) = stdout s"
        "fst (try_candidate api p s) =
           (if n \<le> 0 then Inl (RuntimeError_write_returned n) else Inr ())"
        using o None w by (simp_all add: try_candidate_def call_open_path_def call_write_def Let_def)
      then show ?thesis
        by (intro exI [of _ "Write_returned n"]) simp
    qed
  qed
qed

lemma close_quietly_calls:
  "\<exists>r. calls (close_quietly api p s) = calls s @ [Close p r] \<and>
       stdout (close_quietly api p s) = stdout s"
  by (cases "hid_close api p (world s)") (simp add: close_quietly_def call_close_def)

lemma try_candidate_success_iff:
  "fst (try_candidate api p s) = Inr () \<longleftrightarrow>
     (\<exists>w1 n w2. hid_open_path api p (world s) = (None, w1) \<and>
        hid_write api p (build_display_report 0) w1 = (Inr n, w2) \<and> 0 < n)"
proof -
  obtain r1 w1 where o: "hid_open_path api p (world s) = (r1, w1)"
    by (cases "hid_open_path api p (world s)")
  obtain r2 w2 where w: "hid_write api p (build_display_report 0) w1 = (r2, w2)"
    by (cases "hid_write api p (build_display_report 0) w1")
  show ?thesis
    using o w
    by (cases r1; cases r2) (auto simp: try_candidate_def call_open_path_def call_write_def Let_def)
qed


lemma open_post_True:
  assumes "length fs \<le> length cs" "\<forall>f \<in> set fs. attempt_error (fst f) \<noteq> None"
    "length fs < length cs"
    "info_interface_number (cs ! length fs) = Some i" "info_path (cs ! length fs) = Some p"
    "attempt_error a = None"
    "calls s' = calls s @ concat (map2 failed_attempt_calls cs fs) @ attempt_calls p a"
    "self' = self\<lparr>device := Some (HidDevice p), interface_number := Some i, path := Some p\<rparr>"
    "stdout s' = stdout s @ [Msg_connected i]"
  shows "open_post cs last_err self s fs (True, self', s')"
  unfolding open_post_def by (simp only: prod.case if_True) (use assms in blast)

lemma open_post_False:
  assumes "length fs \<le> length cs" "\<forall>f \<in> set fs. attempt_error (fst f) \<noteq> None"
    "length fs = length cs"
    "calls s' = calls s @ concat (map2 failed_attempt_calls cs fs)"
    "self' = self"
    "stdout s' = stdout s @ Msg_no_working_interface #
       (case last_error last_err fs of None \<Rightarrow> [] | Some e \<Rightarrow> [Msg_last_error e])"
  shows "open_post cs last_err self s fs (False, self', s')"
  unfolding open_post_def by (simp only: prod.case if_False) (use assms in blast)

lemma last_error_Cons:
  "attempt_error a = Some e \<Longrightarrow> last_error last_err ((a, r) # fs) = last_error (Some e) fs"
  by (simp add: last_error_def)

lemma open_post_Cons:
  assumes post: "open_post cs (Some e) self s2 fs res"
    and a: "attempt_error a = Some e"
    and p: "info_path c = Some p"
    and calls: "calls s2 = calls s @ attempt_calls p a @ [Close p r]"
    and out: "stdout s2 = stdout s"
  shows "open_post (c # cs) last_err self s ((a, r) # fs) res"
proof -
  obtain ok self' s' where res: "res = (ok, self', s')"
    by (cases res)
  have f: "failed_attempt_calls c (a, r) = attempt_calls p a @ [Close p r]"
    using p by (simp add: failed_attempt_calls_def)
  have len: "length ((a, r) # fs) \<le> length (c # cs)"
    and err: "\<forall>f \<in> set ((a, r) # fs). attempt_error (fst f) \<noteq> None"
    using post a by (simp_all add: open_post_def res)
  show ?thesis
  proof (cases ok)
    case True
    then obtain b i q where b: "length fs < length cs"
      "info_interface_number (cs ! length fs) = Some i" "info_path (cs ! length fs) = Some q"
      "attempt_error b = None"
      "calls s' = calls s2 @ concat (map2 failed_attempt_calls cs fs) @ attempt_calls q b"
      "self' = self\<lparr>device := Some (HidDevice q), interface_number := Some i, path := Some q\<rparr>"
      "stdout s' = stdout s2 @ [Msg_connected i]"
      using post unfolding open_post_def res by auto
    have c1: "calls s' = calls s @ concat (map2 failed_attempt_calls (c # cs) ((a, r) # fs)) @
        attempt_calls q b"
      using b(5) calls f by simp
    have c2: "stdout s' = stdout s @ [Msg_connected i]"
      using b(7) out by simp
    have c3: "length ((a, r) # fs) < length (c # cs)"
      "info_interface_number ((c # cs) ! length ((a, r) # fs)) = Some i"
      "info_path ((c # cs) ! length ((a, r) # fs)) = Some q"
      using b(1-3) by simp_all
    have "res = (True, self', s')"
      using res True by simp
    then show ?thesis
      using open_post_True [OF len err c3 b(4) c1 b(6) c2] by simp
  next
    case False
    then have b: "length fs = length cs"
      "calls s' = calls s2 @ concat (map2 failed_attempt_calls cs fs)"
      "self' = self"
      "stdout s' = stdout s2 @ Msg_no_working_interface #
         (case last_error (Some e) fs of None \<Rightarrow> [] | Some e \<Rightarrow> [Msg_last_error e])"
      using post unfolding open_post_def res by auto
    have c1: "calls s' = calls s @ concat (map2 failed_attempt_calls (c # cs) ((a, r) # fs))"
      using b(2) calls f by simp
    have c2: "stdout s' = stdout s @ Msg_no_working_interface #
         (case last_error last_err ((a, r) # fs) of None \<Rightarrow> [] | Some e \<Rightarrow> [Msg_last_error e])"
      using b(4) out by (simp only: last_error_Cons [OF a])
    have c3: "length ((a, r) # fs) = length (c # cs)"
      using b(1) by simp
    have "res = (False, self', s')"
      using res False by simp
    then show ?thesis
      using open_post_False [OF len err c3 c1 b(3) c2] by simp
  qed
qed

lemma open_loop_trace:
  assumes "\<forall>c \<in> set cs. addressable c"
  shows "\<exists>fs. open_post cs last_err self s fs (open_loop api cs last_err self s)"
  using assms
proof (induction cs arbitrary: last_err s)
  case Nil
  have "open_post [] last_err self s [] (open_loop api [] last_err self s)"
    by (simp add: open_post_def last_error_def print_def Let_def split: option.splits)
  then show ?case ..
next
  case (Cons c cs)
  obtain i p where ip: "info_interface_number c = Some i" "info_path c = Some p"
    using Cons.prems by (auto simp: addressable_def)
  obtain r s1 where t: "try_candidate api p s = (r, s1)"
    by (cases "try_candidate api p s")
  obtain a where a: "calls s1 = calls s @ attempt_calls p a" "stdout s1 = stdout s"
    "case r of Inr _ \<Rightarrow> attempt_error a = None | Inl e \<Rightarrow> attempt_error a = Some e"
    using try_candidate_attempt [of api p s] unfolding t by auto
  show ?case
  proof (cases r)
    case (Inr u)
    then have res: "open_loop api (c # cs) last_err self s =
        (True, self\<lparr>device := Some (HidDevice p), interface_number := Some i, path := Some p\<rparr>,
         print (Msg_connected i) s1)"
      using ip t by simp
    have "attempt_error a = None"
      using a(3) Inr by simp
    then have "open_post (c # cs) last_err self s [] (open_loop api (c # cs) last_err self s)"
      unfolding res using ip a(1,2) by (intro open_post_True [where a = a]) (simp_all add: print_def)
    then show ?thesis ..
  next
    case (Inl e)
    let ?s2 = "close_quietly api p s1"
    have res: "open_loop api (c # cs) last_err self s = open_loop api cs (Some e) self ?s2"
      using Inl ip t by simp
    obtain r' where c: "calls ?s2 = calls s1 @ [Close p r']" "stdout ?s2 = stdout s1"
      using close_quietly_calls [of api p s1] by auto
    have ae: "attempt_error a = Some e"
      using a(3) Inl by simp
    from Cons.prems have "\<forall>c \<in> set cs. addressable c"
      by simp
    then obtain fs where "open_post cs (Some e) self ?s2 fs (open_loop api cs (Some e) self ?s2)"
      using Cons.IH by blast
    then have "open_post (c # cs) last_err self s ((a, r') # fs)
        (open_loop api cs (Some e) self ?s2)"
      using ae ip(2) by (rule open_post_Cons) (simp_all add: c a)
    then show ?thesis
      unfolding res ..
  qed
qed


lemma candidates_addressable:
  "\<forall>c \<in> set (sorted_candidates (unique_devices ds)). addressable c"
  using addressable_unique_devices by (simp add: set_sorted_candidates)

text \<open>
  C5. If the enumeration is empty, \<^verbatim>\<open>open\<close> fails at once with the no-cooler-found
  message, calling nothing. Otherwise it attempts the ordered candidates one by one: each
  failed attempt is followed by the close of its handle and by the next candidate; the
  first attempt without error ends the search and binds that candidate's interface
  number and path; failure is returned only when every candidate failed, with the
  no-working-interface message and the last error. An attempt is without error exactly
  when \<^verbatim>\<open>open_path\<close> returns normally and the write of the value-0 report returns a
  byte count above 0. (When no enumerated entry has both fields there is no candidate
  and hence no last error to print.)
\<close>

theorem open_controller_outcome:
  "(hid_enumerate api (world s) = [] \<longrightarrow>
      open_controller api self s =
        (False, self, s\<lparr>stdout := stdout s @ [Msg_no_cooler_found]\<rparr>)) \<and>
   (hid_enumerate api (world s) \<noteq> [] \<longrightarrow>
      (\<exists>fs. open_post (sorted_candidates (unique_devices (hid_enumerate api (world s))))
              None self s fs (open_controller api self s))) \<and>
   (fst (try_candidate api p s1) = Inr () \<longleftrightarrow>
      (\<exists>w1 n w2. hid_open_path api p (world s1) = (None, w1) \<and>
         hid_write api p (build_display_report 0) w1 = (Inr n, w2) \<and> 0 < n))"
proof (intro conjI impI)
  assume "hid_enumerate api (world s) = []"
  then show "open_controller api self s =
        (False, self, s\<lparr>stdout := stdout s @ [Msg_no_cooler_found]\<rparr>)"
    by (simp add: open_controller_def print_def)
next
  let ?cs = "sorted_candidates (unique_devices (hid_enumerate api (world s)))"
  assume "hid_enumerate api (world s) \<noteq> []"
  then have "open_controller api self s = open_loop api ?cs None self s"
    by (simp add: open_controller_def)
  then show "\<exists>fs. open_post ?cs None self s fs (open_controller api self s)"
    using open_loop_trace [OF candidates_addressable] by simp
next
  show "fst (try_candidate api p s1) = Inr () \<longleftrightarrow>
      (\<exists>w1 n w2. hid_open_path api p (world s1) = (None, w1) \<and>
         hid_write api p (build_display_report 0) w1 = (Inr n, w2) \<and> 0 < n)"
    by (rule try_candidate_success_iff)
qed

theorem open_controller_outcome_witness:
  "hid_enumerate (ex_api []) (world ex_sys) = [] \<and>
   open_controller (ex_api []) init ex_sys =
     (False, init, \<lparr>world = 0, calls = [], stdout = [Msg_no_cooler_found]\<rparr>) \<and>
   hid_enumerate (ex_api [cand_B, cand_A, cand_C]) (world ex_sys) \<noteq> [] \<and>
   (\<exists>fs. open_post [cand_C, cand_A, cand_B] None init ex_sys fs
      (True, ctl_A,
       \<lparr>world = 5,
        calls = [OpenPath [3] None, Write [3] (build_display_report 0) (Inr 0), Close [3] None,
                 OpenPath [1] None, Write [1] (build_display_report 0) (Inr 64)],
        stdout = [Msg_connected 1]\<rparr>)) \<and>
   hid_enumerate (ex_api [cand_C, cand_B]) (world ex_sys) \<noteq> [] \<and>
   (\<exists>fs. open_post [cand_C, cand_B] None init ex_sys fs
      (False, init,
       \<lparr>world = 5,
        calls = [OpenPath [3] None, Write [3] (build_display_report 0) (Inr 0), Close [3] None,
                 OpenPath [5] (Some (HidException ''open failed'')), Close [5] None],
        stdout = [Msg_no_working_interface, Msg_last_error (HidException ''open failed'')]\<rparr>)) \<and>
   fst (try_candidate (ex_api []) [1] ex_sys) = Inr () \<and>
   (\<exists>w1 n w2. hid_open_path (ex_api []) [1] (world ex_sys) = (None, w1) \<and>
      hid_write (ex_api []) [1] (build_display_report 0) w1 = (Inr n, w2) \<and> 0 < n)"
proof -
  note t0 = open_controller_outcome
    [where api = "ex_api []" and self = init and s = ex_sys and p = "[1]" and ?s1.0 = ex_sys]
  note t1 = open_controller_outcome
    [where api = "ex_api [cand_B, cand_A, cand_C]" and self = init and s = ex_sys and p = "[1]"
       and ?s1.0 = ex_sys]
  note t2 = open_controller_outcome
    [where api = "ex_api [cand_C, cand_B]" and self = init and s = ex_sys and p = "[1]"
       and ?s1.0 = ex_sys]
  have e0: "hid_enumerate (ex_api []) (world ex_sys) = []"
    by (simp add: ex_api_def)
  have o0: "open_controller (ex_api []) init ex_sys =
     (False, init, \<lparr>world = 0, calls = [], stdout = [Msg_no_cooler_found]\<rparr>)"
    using t0 e0 by (simp add: ex_sys_def)
  have e1: "hid_enumerate (ex_api [cand_B, cand_A, cand_C]) (world ex_sys) = [cand_B, cand_A, cand_C]"
    by (simp add: ex_api_def)
  have c1: "sorted_candidates (unique_devices [cand_B, cand_A, cand_C]) = [cand_C, cand_A, cand_B]"
    by code_simp
  have o1: "open_controller (ex_api [cand_B, cand_A, cand_C]) init ex_sys =
      (True, ctl_A,
       \<lparr>world = 5,
        calls = [OpenPath [3] None, Write [3] (build_display_report 0) (Inr 0), Close [3] None,
                 OpenPath [1] None, Write [1] (build_display_report 0) (Inr 64)],
        stdout = [Msg_connected 1]\<rparr>)"
    by code_simp
  have p1: "\<exists>fs. open_post [cand_C, cand_A, cand_B] None init ex_sys fs
      (True, ctl_A,
       \<lparr>world = 5,
        calls = [OpenPath [3] None, Write [3] (build_display_report 0) (Inr 0), Close [3] None,
                 OpenPath [1] None, Write [1] (build_display_report 0) (Inr 64)],
        stdout = [Msg_connected 1]\<rparr>)"
    using t1 unfolding e1 c1 o1 by simp
  have e2: "hid_enumerate (ex_api [cand_C, cand_B]) (world ex_sys) = [cand_C, cand_B]"
    by (simp add: ex_api_def)
  have c2: "sorted_candidates (unique_devices [cand_C, cand_B]) = [cand_C, cand_B]"
    by code_simp
  have o2: "open_controller (ex_api [cand_C, cand_B]) init ex_sys =
      (False, init,
       \<lparr>world = 5,
        calls = [OpenPath [3] None, Write [3] (build_display_report 0) (Inr 0), Close [3] None,
                 OpenPath [5] (Some (HidException ''open failed'')), Close [5] None],
        stdout = [Msg_no_working_interface, Msg_last_error (HidException ''open failed'')]\<rparr>)"
    by code_simp
  have p2: "\<exists>fs. open_post [cand_C, cand_B] None init ex_sys fs
      (False, init,
       \<lparr>world = 5,
        calls = [OpenPath [3] None, Write [3] (build_display_report 0) (Inr 0), Close [3] None,
                 OpenPath [5] (Some (HidException ''open failed'')), Close [5] None],
        stdout = [Msg_no_working_interface, Msg_last_error (HidException ''open failed'')]\<rparr>)"
    using t2 unfolding e2 c2 o2 by simp
  have s0: "fst (try_candidate (ex_api []) [1] ex_sys) = Inr ()"
    by code_simp
  have w0: "\<exists>w1 n w2. hid_open_path (ex_api []) [1] (world ex_sys) = (None, w1) \<and>
      hid_write (ex_api []) [1] (build_display_report 0) w1 = (Inr n, w2) \<and> 0 < n"
    using t0 s0 by blast
  have n1: "hid_enumerate (ex_api [cand_B, cand_A, cand_C]) (world ex_sys) \<noteq> []"
    "hid_enumerate (ex_api [cand_C, cand_B]) (world ex_sys) \<noteq> []"
    by (simp_all add: e1 e2)
  show ?thesis
    using e0 o0 n1 p1 p2 s0 w0 by (intro conjI)
qed

section \<open>Unit conversion, rounding and clamping\<close>




lemma round_half_even_of_int: "round_half_even (of_int n) = n"
  by (simp add: round_half_even_def Let_def)














section \<open>The keepalive of the display loop\<close>











end
